theory Spec2Isabelle
  imports
    Main
    "HOL-Library.Char_ord"
    "HOL-Library.List_Lexorder"
    "HOL-Library.Multiset"
    "HOL-Library.AList"
begin

section \<open>The asset contract of team3 (lib/assetTransfer.js)\<close>

text \<open>
  The contract is a class of seven transaction functions over the world state of the
  ledger. Text is modelled as \<^typ>\<open>string\<close> (a list of bytes, the UTF-8 form that
  \<^verbatim>\<open>Buffer.from(text)\<close> produces and \<^verbatim>\<open>buffer.toString()\<close> reads back), so
  the two conversions are the identity here. Numbers are the integer-valued ones and
  print in decimal.
\<close>

subsection \<open>Values\<close>

text \<open>
  A transaction argument is a primitive value: text, a number, a boolean or null.
  A JavaScript object is the list of its properties in enumeration order, which for the
  property names of this contract is the order of construction.
\<close>

datatype prim =
    PNull
  | PBool bool
  | PNum int
  | PStr string

datatype jsval =
    JLit prim
  | JArr "jsval list"
  | JObj "(string \<times> jsval) list"

text \<open>Truthiness, as \<^verbatim>\<open>if (x)\<close> and \<^verbatim>\<open>!x\<close> read a value.\<close>

fun truthy :: "prim \<Rightarrow> bool" where
  "truthy PNull = False"
| "truthy (PBool b) = b"
| "truthy (PNum n) = (n \<noteq> 0)"
| "truthy (PStr s) = (s \<noteq> [])"

subsection \<open>JSON text\<close>

text \<open>
  \<^verbatim>\<open>JSON.stringify\<close> is a built-in of the language; its compact form (no indent
  argument) is written out here: the quoting of text, decimal numbers, and arrays and
  objects in enumeration order with \<^verbatim>\<open>,\<close> and \<^verbatim>\<open>:\<close> and no white space.
\<close>

definition hex_digit :: "nat \<Rightarrow> char" where
  "hex_digit n = ''0123456789abcdef'' ! (n mod 16)"

definition escape_char :: "char \<Rightarrow> string" where
  "escape_char c =
     (if c = CHR 0x22 then [CHR 0x5C, CHR 0x22]
      else if c = CHR 0x5C then [CHR 0x5C, CHR 0x5C]
      else if c = CHR 0x08 then [CHR 0x5C, CHR ''b'']
      else if c = CHR 0x0C then [CHR 0x5C, CHR ''f'']
      else if c = CHR 0x0A then [CHR 0x5C, CHR ''n'']
      else if c = CHR 0x0D then [CHR 0x5C, CHR ''r'']
      else if c = CHR 0x09 then [CHR 0x5C, CHR ''t'']
      else if (of_char c :: nat) < 32 then
        [CHR 0x5C, CHR ''u'', CHR ''0'', CHR ''0'',
         hex_digit (of_char c div 16), hex_digit (of_char c)]
      else [c])"

definition quote :: "string \<Rightarrow> string" where
  "quote s = [CHR 0x22] @ concat (map escape_char s) @ [CHR 0x22]"

definition digit_char :: "nat \<Rightarrow> char" where
  "digit_char n = ''0123456789'' ! (n mod 10)"

function show_nat :: "nat \<Rightarrow> string" where
  "show_nat n = (if n < 10 then [digit_char n] else show_nat (n div 10) @ [digit_char n])"
  by pat_completeness auto
termination
  by (relation "measure id") auto

declare show_nat.simps [simp del]

definition show_int :: "int \<Rightarrow> string" where
  "show_int i = (if i < 0 then ''-'' @ show_nat (nat (- i)) else show_nat (nat i))"

fun prim_text :: "prim \<Rightarrow> string" where
  "prim_text PNull = ''null''"
| "prim_text (PBool b) = (if b then ''true'' else ''false'')"
| "prim_text (PNum n) = show_int n"
| "prim_text (PStr s) = quote s"

text \<open>\<^verbatim>\<open>Array.prototype.join\<close>.\<close>

fun join :: "string \<Rightarrow> string list \<Rightarrow> string" where
  "join sep [] = []"
| "join sep [x] = x"
| "join sep (x # y # ys) = x @ sep @ join sep (y # ys)"

fun JSON_stringify :: "jsval \<Rightarrow> string" where
  "JSON_stringify (JLit p) = prim_text p"
| "JSON_stringify (JArr xs) = ''['' @ join '','' (map JSON_stringify xs) @ '']''"
| "JSON_stringify (JObj kvs) =
     ''{'' @ join '','' (map (\<lambda>(k, v). quote k @ '':'' @ JSON_stringify v) kvs) @ ''}''"

subsection \<open>The two libraries of the deterministic encoding\<close>

text \<open>
  Modelled from the spec: the packages \<^verbatim>\<open>sort-keys-recursive\<close> and
  \<^verbatim>\<open>json-stringify-deterministic\<close> are required by the contract and are not part of
  its source. The first returns the value with the keys of every object sorted, at every
  depth; the second writes compact JSON text with the keys of every object in sorted order.
  Keys are compared as text, byte by byte, a proper prefix first. The elements of an
  array keep their order; no record of this contract holds an array.
\<close>

fun sortKeysRecursive :: "jsval \<Rightarrow> jsval" where
  "sortKeysRecursive (JLit p) = JLit p"
| "sortKeysRecursive (JArr xs) = JArr (map sortKeysRecursive xs)"
| "sortKeysRecursive (JObj kvs) =
     JObj (sort_key fst (map (\<lambda>(k, v). (k, sortKeysRecursive v)) kvs))"

fun stringify :: "jsval \<Rightarrow> string" where
  "stringify (JLit p) = prim_text p"
| "stringify (JArr xs) = ''['' @ join '','' (map stringify xs) @ '']''"
| "stringify (JObj kvs) =
     ''{'' @ join '','' (map (\<lambda>(k, v). quote k @ '':'' @ stringify v) (sort_key fst kvs)) @ ''}''"

subsection \<open>The world state\<close>

text \<open>
  The world state belongs to the host: a store of byte values under text keys, read and
  written through the stub of the transaction context. It is modelled as the list of its
  entries in the order in which a range scan yields them. \<^verbatim>\<open>getState\<close> may give
  no value at all (\<open>None\<close>) or a value of length zero; the contract tests for both.
  The stub of the ledger itself always gives bytes, of length zero for a key without a
  value: there a key without a value is an entry whose value is empty.
\<close>

type_synonym world_state = "(string \<times> string) list"

definition getState :: "world_state \<Rightarrow> string \<Rightarrow> string option" where
  "getState ctx key = map_of ctx key"

definition putState :: "world_state \<Rightarrow> string \<Rightarrow> string \<Rightarrow> world_state" where
  "putState ctx key val = AList.update key val ctx"

definition deleteState :: "world_state \<Rightarrow> string \<Rightarrow> world_state" where
  "deleteState ctx key = AList.delete key ctx"

text \<open>An empty end key leaves the range open above; the start key is inclusive.\<close>

definition getStateByRange :: "world_state \<Rightarrow> string \<Rightarrow> string \<Rightarrow> (string \<times> string) list" where
  "getStateByRange ctx startKey endKey =
     filter (\<lambda>(k, v). startKey \<le> k \<and> (endKey = [] \<or> k < endKey)) ctx"

subsection \<open>The transaction functions\<close>

text \<open>
  A transaction function takes the world state and returns its result together with the
  world state it leaves. A thrown \<^verbatim>\<open>Error\<close> is the left summand and carries the
  message. Failures of the host itself are not modelled.
\<close>

datatype error = Error string

type_synonym 'a outcome = "(error + 'a) \<times> world_state"

text \<open>
  The one element of the array \<^verbatim>\<open>assets\<close> of \<^verbatim>\<open>InitLedger\<close>, after the loop
  has set its \<^verbatim>\<open>docType\<close>: a property that is new goes last.
\<close>

definition seed_asset :: jsval where
  "seed_asset =
     JObj [(''RID'', JLit (PStr ''101'')),
           (''SID'', JLit (PStr ''1'')),
           (''Readings'', JObj [(''BPM'', JLit (PNum 100)), (''HRV'', JLit (PNum 10))]),
           (''Time'', JLit (PStr ''2023-11-04T15:30:00.000Z'')),
           (''Team'', JLit (PStr ''team3'')),
           (''docType'', JLit (PStr ''asset''))]"

definition InitLedger :: "world_state \<Rightarrow> unit outcome" where
  "InitLedger ctx =
     (let asset = seed_asset
      in (Inr (), putState ctx ''101'' (stringify (sortKeysRecursive asset))))"

text \<open>
  \<^verbatim>\<open>assetJSON && assetJSON.length > 0\<close>: the left operand when it is falsy (no value),
  the comparison otherwise (a buffer is an object, and truthy even when empty).
\<close>

definition AssetExists :: "world_state \<Rightarrow> string \<Rightarrow> prim \<times> world_state" where
  "AssetExists ctx rid =
     (case getState ctx rid of
        None \<Rightarrow> (PNull, ctx)
      | Some assetJSON \<Rightarrow> (PBool (length assetJSON > 0), ctx))"

text \<open>The object literals of \<^verbatim>\<open>CreateAsset\<close> and of \<^verbatim>\<open>UpdateAsset\<close>.\<close>

definition new_asset :: "string \<Rightarrow> prim \<Rightarrow> prim \<Rightarrow> prim \<Rightarrow> prim \<Rightarrow> prim \<Rightarrow> jsval" where
  "new_asset rid sid bpm hrv time team =
     JObj [(''RID'', JLit (PStr rid)),
           (''SID'', JLit sid),
           (''Readings'', JObj [(''BPM'', JLit bpm), (''HRV'', JLit hrv)]),
           (''Time'', JLit time),
           (''Team'', JLit team)]"

definition updated_asset :: "string \<Rightarrow> prim \<Rightarrow> prim \<Rightarrow> prim \<Rightarrow> prim \<Rightarrow> prim \<Rightarrow> jsval" where
  "updated_asset rid sid bpm hrv time team =
     JObj [(''RID'', JLit (PStr rid)),
           (''SID'', JLit sid),
           (''Readings'', JObj [(''BPM'', JLit bpm), (''HRV'', JLit hrv)]),
           (''TIme'', JLit time),
           (''Team'', JLit team)]"

definition CreateAsset ::
  "world_state \<Rightarrow> string \<Rightarrow> prim \<Rightarrow> prim \<Rightarrow> prim \<Rightarrow> prim \<Rightarrow> prim \<Rightarrow> string outcome" where
  "CreateAsset ctx rid sid bpm hrv time team =
     (let (exists, ctx1) = AssetExists ctx rid in
      if truthy exists then (Inl (Error (''The asset '' @ rid @ '' already exists'')), ctx1)
      else
        let asset = new_asset rid sid bpm hrv time team;
            ctx2 = putState ctx1 rid (stringify (sortKeysRecursive asset))
        in (Inr (JSON_stringify asset), ctx2))"

definition ReadAsset :: "world_state \<Rightarrow> string \<Rightarrow> string outcome" where
  "ReadAsset ctx rid =
     (case getState ctx rid of
        None \<Rightarrow> (Inl (Error (''The asset '' @ rid @ '' does not exist'')), ctx)
      | Some assetJSON \<Rightarrow>
          if length assetJSON = 0
          then (Inl (Error (''The asset '' @ rid @ '' does not exist'')), ctx)
          else (Inr assetJSON, ctx))"

definition UpdateAsset ::
  "world_state \<Rightarrow> string \<Rightarrow> prim \<Rightarrow> prim \<Rightarrow> prim \<Rightarrow> prim \<Rightarrow> prim \<Rightarrow> unit outcome" where
  "UpdateAsset ctx rid sid bpm hrv time team =
     (let (exists, ctx1) = AssetExists ctx rid in
      if \<not> truthy exists then (Inl (Error (''The asset '' @ rid @ '' does not exist'')), ctx1)
      else
        let updatedAsset = updated_asset rid sid bpm hrv time team
        in (Inr (), putState ctx1 rid (stringify (sortKeysRecursive updatedAsset))))"

definition DeleteAsset :: "world_state \<Rightarrow> string \<Rightarrow> unit outcome" where
  "DeleteAsset ctx rid =
     (let (exists, ctx1) = AssetExists ctx rid in
      if \<not> truthy exists then (Inl (Error (''The asset '' @ rid @ '' does not exist'')), ctx1)
      else (Inr (), deleteState ctx1 rid))"

text \<open>
  The loop of \<^verbatim>\<open>GetAllAssets\<close> over the iterator of the range scan, with the list
  \<^verbatim>\<open>allResults\<close> as it grows. The value of an entry goes from bytes to text, to bytes
  and to text again, which leaves it as it is. \<^verbatim>\<open>JSON.parse\<close> is a built-in and is a
  parameter: \<open>None\<close> is the exception it throws on text that is not JSON.
\<close>

fun drain :: "(string \<Rightarrow> jsval option) \<Rightarrow> (string \<times> string) list \<Rightarrow> jsval list \<Rightarrow> jsval list" where
  "drain JSON_parse [] allResults = allResults"
| "drain JSON_parse (result # iterator) allResults =
     (let strValue = snd result;
          record = (case JSON_parse strValue of
                      Some parsed \<Rightarrow> parsed
                    | None \<Rightarrow> JLit (PStr strValue))
      in drain JSON_parse iterator (allResults @ [record]))"

definition GetAllAssets :: "(string \<Rightarrow> jsval option) \<Rightarrow> world_state \<Rightarrow> string outcome" where
  "GetAllAssets JSON_parse ctx =
     (let allResults = drain JSON_parse (getStateByRange ctx [] []) []
      in (Inr (JSON_stringify (JArr allResults)), ctx))"

text \<open>
  One transaction of the contract, and the world state that it leaves. A transaction
  that throws has written nothing before it throws.
\<close>

datatype transaction =
    TxInitLedger
  | TxCreateAsset string prim prim prim prim prim
  | TxReadAsset string
  | TxUpdateAsset string prim prim prim prim prim
  | TxDeleteAsset string
  | TxAssetExists string
  | TxGetAllAssets

fun after :: "(string \<Rightarrow> jsval option) \<Rightarrow> world_state \<Rightarrow> transaction \<Rightarrow> world_state" where
  "after JSON_parse ctx TxInitLedger = snd (InitLedger ctx)"
| "after JSON_parse ctx (TxCreateAsset rid sid bpm hrv time team) =
     snd (CreateAsset ctx rid sid bpm hrv time team)"
| "after JSON_parse ctx (TxReadAsset rid) = snd (ReadAsset ctx rid)"
| "after JSON_parse ctx (TxUpdateAsset rid sid bpm hrv time team) =
     snd (UpdateAsset ctx rid sid bpm hrv time team)"
| "after JSON_parse ctx (TxDeleteAsset rid) = snd (DeleteAsset ctx rid)"
| "after JSON_parse ctx (TxAssetExists rid) = snd (AssetExists ctx rid)"
| "after JSON_parse ctx TxGetAllAssets = snd (GetAllAssets JSON_parse ctx)"

section \<open>Notions of the specification\<close>

subsection \<open>Records\<close>

text \<open>The properties of an object, and the value of one of them.\<close>

fun entries :: "jsval \<Rightarrow> (string \<times> jsval) list" where
  "entries (JObj kvs) = kvs"
| "entries v = []"

definition member :: "jsval \<Rightarrow> string \<Rightarrow> jsval option" where
  "member v k = map_of (entries v) k"

text \<open>A value is in canonical form when the keys of each of its objects ascend.\<close>

fun canonical :: "jsval \<Rightarrow> bool" where
  "canonical (JLit p) = True"
| "canonical (JArr xs) = (\<forall>x \<in> set xs. canonical x)"
| "canonical (JObj kvs) =
     (sorted_wrt (<) (map fst kvs) \<and> (\<forall>kv \<in> set kvs. canonical (snd kv)))"

text \<open>
  Two values are the same logical record when they differ in nothing but the order in
  which the properties of their objects were set.
\<close>

fun same_record :: "jsval \<Rightarrow> jsval \<Rightarrow> bool" where
  "same_record (JLit p) w = (w = JLit p)"
| "same_record (JArr xs) w =
     (case w of JArr ys \<Rightarrow> list_all2 same_record xs ys | _ \<Rightarrow> False)"
| "same_record (JObj kvs) w =
     (case w of
        JObj kvs' \<Rightarrow>
          distinct (map fst kvs) \<and> distinct (map fst kvs') \<and>
          set (map fst kvs) = set (map fst kvs') \<and>
          (\<forall>kv \<in> set kvs. case map_of kvs' (fst kv) of
                             Some v' \<Rightarrow> same_record (snd kv) v'
                           | None \<Rightarrow> False)
      | _ \<Rightarrow> False)"

subsection \<open>Reading JSON text\<close>

text \<open>
  What a compact JSON text stands for: the reading that undoes \<^const>\<open>JSON_stringify\<close>
  on the values of this model. It is a notion of the specification (``decodes to''), not
  the built-in \<^verbatim>\<open>JSON.parse\<close>, which also reads white space and fractions. The
  recursion over nested values is bounded by a counter that the length of the text covers.
\<close>

definition is_digit :: "char \<Rightarrow> bool" where
  "is_digit c \<longleftrightarrow> 48 \<le> (of_char c :: nat) \<and> (of_char c :: nat) \<le> 57"

definition digit_value :: "char \<Rightarrow> nat" where
  "digit_value c = of_char c - 48"

definition hex_value :: "char \<Rightarrow> nat option" where
  "hex_value c =
     (let n = (of_char c :: nat) in
      if 48 \<le> n \<and> n \<le> 57 then Some (n - 48)
      else if 97 \<le> n \<and> n \<le> 102 then Some (n - 87)
      else if 65 \<le> n \<and> n \<le> 70 then Some (n - 55)
      else None)"

text \<open>The text after an opening quote: the text it stands for, and what follows the closing quote.\<close>

fun read_string :: "string \<Rightarrow> (string \<times> string) option" where
  "read_string [] = None"
| "read_string (c # cs) =
     (if c = CHR 0x22 then Some ([], cs)
      else if c = CHR 0x5C then
        (case cs of
           [] \<Rightarrow> None
         | e # r \<Rightarrow>
             if e = CHR ''u'' then
               (case r of
                  h1 # h2 # h3 # h4 # r' \<Rightarrow>
                    (case (hex_value h1, hex_value h2, hex_value h3, hex_value h4) of
                       (Some a, Some b, Some c', Some d) \<Rightarrow>
                         if ((a * 16 + b) * 16 + c') * 16 + d < 128
                         then map_option (apfst ((#) (char_of (((a * 16 + b) * 16 + c') * 16 + d))))
                                (read_string r')
                         else None
                     | _ \<Rightarrow> None)
                | _ \<Rightarrow> None)
             else
               (case (if e = CHR 0x22 then Some (CHR 0x22)
                      else if e = CHR 0x5C then Some (CHR 0x5C)
                      else if e = CHR ''/'' then Some (CHR ''/'')
                      else if e = CHR ''b'' then Some (CHR 0x08)
                      else if e = CHR ''f'' then Some (CHR 0x0C)
                      else if e = CHR ''n'' then Some (CHR 0x0A)
                      else if e = CHR ''r'' then Some (CHR 0x0D)
                      else if e = CHR ''t'' then Some (CHR 0x09)
                      else None) of
                  None \<Rightarrow> None
                | Some x \<Rightarrow> map_option (apfst ((#) x)) (read_string r)))
      else if (of_char c :: nat) < 32 then None
      else map_option (apfst ((#) c)) (read_string cs))"

fun read_digits :: "string \<Rightarrow> nat \<Rightarrow> nat \<times> string" where
  "read_digits [] acc = (acc, [])"
| "read_digits (c # cs) acc =
     (if is_digit c then read_digits cs (10 * acc + digit_value c) else (acc, c # cs))"

definition read_number :: "string \<Rightarrow> (int \<times> string) option" where
  "read_number s =
     (case s of
        [] \<Rightarrow> None
      | c # cs \<Rightarrow>
          if c = CHR ''-'' then
            (case cs of
               [] \<Rightarrow> None
             | d # ds \<Rightarrow> if is_digit d then (case read_digits cs 0 of (n, r) \<Rightarrow> Some (- int n, r)) else None)
          else if is_digit c then (case read_digits s 0 of (n, r) \<Rightarrow> Some (int n, r))
          else None)"

fun read_value :: "nat \<Rightarrow> string \<Rightarrow> (jsval \<times> string) option"
  and read_elements :: "nat \<Rightarrow> string \<Rightarrow> (jsval list \<times> string) option"
  and read_members :: "nat \<Rightarrow> string \<Rightarrow> ((string \<times> jsval) list \<times> string) option"
where
  "read_value 0 s = None"
| "read_value (Suc n) s =
     (case s of
        [] \<Rightarrow> None
      | c # r \<Rightarrow>
          if c = CHR ''['' then
            (case r of
               [] \<Rightarrow> None
             | c' # r' \<Rightarrow>
                 if c' = CHR '']'' then Some (JArr [], r')
                 else map_option (apfst JArr) (read_elements n r))
          else if c = CHR ''{'' then
            (case r of
               [] \<Rightarrow> None
             | c' # r' \<Rightarrow>
                 if c' = CHR ''}'' then Some (JObj [], r')
                 else map_option (apfst JObj) (read_members n r))
          else if c = CHR 0x22 then map_option (apfst (\<lambda>t. JLit (PStr t))) (read_string r)
          else if take 4 s = ''null'' then Some (JLit PNull, drop 4 s)
          else if take 4 s = ''true'' then Some (JLit (PBool True), drop 4 s)
          else if take 5 s = ''false'' then Some (JLit (PBool False), drop 5 s)
          else map_option (apfst (\<lambda>i. JLit (PNum i))) (read_number s))"
| "read_elements 0 s = None"
| "read_elements (Suc n) s =
     (case read_value n s of
        None \<Rightarrow> None
      | Some (v, r) \<Rightarrow>
          (case r of
             [] \<Rightarrow> None
           | c # r' \<Rightarrow>
               if c = CHR '']'' then Some ([v], r')
               else if c = CHR '','' then map_option (apfst ((#) v)) (read_elements n r')
               else None))"
| "read_members 0 s = None"
| "read_members (Suc n) s =
     (case s of
        [] \<Rightarrow> None
      | q # s' \<Rightarrow>
          if q \<noteq> CHR 0x22 then None
          else
            (case read_string s' of
               None \<Rightarrow> None
             | Some (k, r0) \<Rightarrow>
                 (case r0 of
                    [] \<Rightarrow> None
                  | colon # r1 \<Rightarrow>
                      if colon \<noteq> CHR '':'' then None
                      else
                        (case read_value n r1 of
                           None \<Rightarrow> None
                         | Some (v, r) \<Rightarrow>
                             (case r of
                                [] \<Rightarrow> None
                              | c # r' \<Rightarrow>
                                  if c = CHR ''}'' then Some ([(k, v)], r')
                                  else if c = CHR '','' then
                                    map_option (apfst ((#) (k, v))) (read_members n r')
                                  else None)))))"

definition decode :: "string \<Rightarrow> jsval option" where
  "decode s = (case read_value (length s) s of Some (v, []) \<Rightarrow> Some v | _ \<Rightarrow> None)"

text \<open>Two auxiliary notions of the proof that reading undoes writing.\<close>

definition ok_rest :: "string \<Rightarrow> bool" where
  "ok_rest rest \<longleftrightarrow> (case rest of [] \<Rightarrow> True | c # _ \<Rightarrow> \<not> is_digit c)"

definition reads_back :: "jsval \<Rightarrow> bool" where
  "reads_back v \<longleftrightarrow>
     (\<forall>n rest. length (JSON_stringify v) \<le> n \<longrightarrow> ok_rest rest \<longrightarrow>
        read_value n (JSON_stringify v @ rest) = Some (v, rest))"

text \<open>
  A stored text is canonical when it reads as a canonical value and is the compact text
  of that value.
\<close>

definition canonical_text :: "string \<Rightarrow> bool" where
  "canonical_text t =
     (case decode t of None \<Rightarrow> False | Some v \<Rightarrow> canonical v \<and> JSON_stringify v = t)"

definition stored_canonical :: "world_state \<Rightarrow> bool" where
  "stored_canonical ctx = list_all (\<lambda>kv. canonical_text (snd kv)) ctx"

text \<open>The white space of JSON, and the texts of a value: its keys and its text literals.\<close>

definition whitespace :: "char \<Rightarrow> bool" where
  "whitespace c \<longleftrightarrow> c = CHR 0x20 \<or> c = CHR 0x09 \<or> c = CHR 0x0A \<or> c = CHR 0x0D"

fun texts :: "jsval \<Rightarrow> string list" where
  "texts (JLit p) = (case p of PStr s \<Rightarrow> [s] | _ \<Rightarrow> [])"
| "texts (JArr xs) = concat (map texts xs)"
| "texts (JObj kvs) = concat (map (\<lambda>(k, v). k # texts v) kvs)"

section \<open>Properties\<close>

subsection \<open>The world state\<close>

lemma getState_putState:
  "getState (putState ctx k v) k' = (if k' = k then Some v else getState ctx k')"
  by (simp add: getState_def putState_def update_conv')

lemma getState_deleteState:
  "getState (deleteState ctx k) k' = (if k' = k then None else getState ctx k')"
  by (simp add: getState_def deleteState_def delete_conv')

lemma filter_putState:
  "filter (\<lambda>kv. fst kv \<noteq> k) (putState ctx k v) = filter (\<lambda>kv. fst kv \<noteq> k) ctx"
  unfolding putState_def by (induction ctx) auto

lemma filter_deleteState:
  "filter (\<lambda>kv. fst kv \<noteq> k) (deleteState ctx k) = filter (\<lambda>kv. fst kv \<noteq> k) ctx"
  unfolding deleteState_def by (induction ctx) auto

lemma getStateByRange_open: "getStateByRange ctx [] [] = ctx"
  by (simp add: getStateByRange_def)

lemma AssetExists_cases:
  "AssetExists ctx rid =
     (case getState ctx rid of None \<Rightarrow> PNull | Some v \<Rightarrow> PBool (v \<noteq> []), ctx)"
  by (simp add: AssetExists_def split: option.splits)

lemma truthy_AssetExists:
  "truthy (fst (AssetExists ctx rid)) \<longleftrightarrow> (\<exists>v. getState ctx rid = Some v \<and> v \<noteq> [])"
  by (simp add: AssetExists_cases split: option.splits)

lemma CreateAsset_unfold:
  "CreateAsset ctx rid sid bpm hrv time team =
     (if truthy (fst (AssetExists ctx rid))
      then (Inl (Error (''The asset '' @ rid @ '' already exists'')), ctx)
      else (Inr (JSON_stringify (new_asset rid sid bpm hrv time team)),
            putState ctx rid (stringify (sortKeysRecursive (new_asset rid sid bpm hrv time team)))))"
  by (simp add: CreateAsset_def AssetExists_cases Let_def)

lemma UpdateAsset_unfold:
  "UpdateAsset ctx rid sid bpm hrv time team =
     (if truthy (fst (AssetExists ctx rid))
      then (Inr (), putState ctx rid
              (stringify (sortKeysRecursive (updated_asset rid sid bpm hrv time team))))
      else (Inl (Error (''The asset '' @ rid @ '' does not exist'')), ctx))"
  by (simp add: UpdateAsset_def AssetExists_cases Let_def)

lemma DeleteAsset_unfold:
  "DeleteAsset ctx rid =
     (if truthy (fst (AssetExists ctx rid))
      then (Inr (), deleteState ctx rid)
      else (Inl (Error (''The asset '' @ rid @ '' does not exist'')), ctx))"
  by (simp add: DeleteAsset_def AssetExists_cases Let_def)

lemma ReadAsset_unfold:
  "ReadAsset ctx rid =
     (if truthy (fst (AssetExists ctx rid))
      then (Inr (the (getState ctx rid)), ctx)
      else (Inl (Error (''The asset '' @ rid @ '' does not exist'')), ctx))"
  by (simp add: ReadAsset_def AssetExists_cases split: option.splits)

lemma drain_map:
  "drain P xs acc =
     acc @ map (\<lambda>kv. case P (snd kv) of Some r \<Rightarrow> r | None \<Rightarrow> JLit (PStr (snd kv))) xs"
  by (induction xs arbitrary: acc) (simp_all add: Let_def)

subsection \<open>Sorting the keys\<close>

lemma insort_key_fst_map:
  assumes "\<And>x. fst (g x) = fst x"
  shows "insort_key fst (g y) (map g xs) = map g (insort_key fst y xs)"
  by (induction xs) (auto simp: assms)

lemma sort_key_fst_map:
  assumes "\<And>x. fst (g x) = fst x"
  shows "sort_key fst (map g xs) = map g (sort_key fst xs)"
  by (induction xs) (auto simp: insort_key_fst_map [OF assms])

lemma sort_key_fst_values:
  "sort_key fst (map (\<lambda>(k, v). (k, h v)) kvs) = map (\<lambda>(k, v). (k, h v)) (sort_key fst kvs)"
  by (rule sort_key_fst_map) (simp add: case_prod_unfold)

lemma stringify_sorted: "stringify v = JSON_stringify (sortKeysRecursive v)"
proof (induction v rule: sortKeysRecursive.induct)
  case (1 p)
  show ?case by simp
next
  case (2 xs)
  then have m: "map stringify xs = map (\<lambda>x. JSON_stringify (sortKeysRecursive x)) xs" by simp
  show ?case by (simp only: stringify.simps sortKeysRecursive.simps JSON_stringify.simps m map_map comp_def)
next
  case (3 kvs)
  let ?g = "\<lambda>(k, v). (k, sortKeysRecursive v)"
  have a: "map (\<lambda>(k, v). quote k @ '':'' @ stringify v) (sort_key fst kvs)
      = map (\<lambda>(k, v). quote k @ '':'' @ JSON_stringify (sortKeysRecursive v)) (sort_key fst kvs)"
    using 3 by (intro map_cong) auto
  have b: "sort_key fst (map ?g kvs) = map ?g (sort_key fst kvs)"
    by (rule sort_key_fst_values)
  have c: "map (\<lambda>(k, v). quote k @ '':'' @ JSON_stringify v) (map ?g ys)
      = map (\<lambda>(k, v). quote k @ '':'' @ JSON_stringify (sortKeysRecursive v)) ys" for ys
    by (simp add: case_prod_unfold)
  show ?case
    by (simp only: stringify.simps sortKeysRecursive.simps JSON_stringify.simps a b c)
qed

lemma sortKeysRecursive_idem: "sortKeysRecursive (sortKeysRecursive v) = sortKeysRecursive v"
proof (induction v rule: sortKeysRecursive.induct)
  case (1 p)
  show ?case by simp
next
  case (2 xs)
  then show ?case by simp
next
  case (3 kvs)
  let ?g = "\<lambda>(k, v). (k, sortKeysRecursive v)"
  have a: "map ?g (map ?g kvs) = map ?g kvs"
    using 3 by (auto simp: case_prod_unfold)
  have "sort_key fst (map ?g (sort_key fst (map ?g kvs))) = sort_key fst (sort_key fst (map ?g (map ?g kvs)))"
    by (simp only: sort_key_fst_values)
  also have "\<dots> = sort_key fst (map ?g kvs)"
    by (simp only: a) (simp add: sort_key_id_if_sorted)
  finally show ?case by simp
qed

lemma stringify_canonical: "stringify (sortKeysRecursive v) = stringify v"
  by (simp add: stringify_sorted sortKeysRecursive_idem)


lemma keyed_image_subset:
  assumes dk': "distinct (map fst kvs')"
    and ks: "set (map fst kvs) = set (map fst kvs')"
    and vs: "\<And>kv v'. kv \<in> set kvs \<Longrightarrow> map_of kvs' (fst kv) = Some v' \<Longrightarrow> h (snd kv) = h v'"
    and ex: "\<And>kv. kv \<in> set kvs \<Longrightarrow> map_of kvs' (fst kv) \<noteq> None"
  shows "set (map (\<lambda>(k, v). (k, h v)) kvs) = set (map (\<lambda>(k, v). (k, h v)) kvs')"
proof (intro set_eqI iffI)
  fix x assume "x \<in> set (map (\<lambda>(k, v). (k, h v)) kvs)"
  then obtain k v where kv: "(k, v) \<in> set kvs" and x: "x = (k, h v)" by auto
  from ex [OF kv] obtain v' where m: "map_of kvs' k = Some v'" by auto
  then have "(k, v') \<in> set kvs'" by (rule map_of_SomeD)
  moreover have "h v = h v'" using vs [OF kv] m by simp
  ultimately show "x \<in> set (map (\<lambda>(k, v). (k, h v)) kvs')" using x by force
next
  fix x assume "x \<in> set (map (\<lambda>(k, v). (k, h v)) kvs')"
  then obtain k v' where kv': "(k, v') \<in> set kvs'" and x: "x = (k, h v')" by auto
  then have "k \<in> set (map fst kvs)" using ks by force
  then obtain v where kv: "(k, v) \<in> set kvs" by auto
  have "map_of kvs' k = Some v'" using dk' kv' by simp
  then have "h v = h v'" using vs [OF kv] by simp
  then show "x \<in> set (map (\<lambda>(k, v). (k, h v)) kvs)" using x kv by force
qed

lemma sort_key_fst_unique:
  assumes "distinct (map fst xs)" "distinct (map fst ys)" "set xs = set ys"
  shows "sort_key fst xs = sort_key fst ys"
proof (rule sort_key_inj_key_eq)
  have "distinct xs" "distinct ys" using assms(1,2) by (simp_all add: distinct_map)
  then show "mset xs = mset (sort_key fst ys)"
    using assms(3) by (simp add: set_eq_iff_mset_eq_distinct)
  show "inj_on fst (set xs)" using assms(1) by (simp add: distinct_map)
  show "sorted (map fst (sort_key fst ys))" by simp
qed

lemma same_record_sortKeys:
  "same_record a b \<Longrightarrow> sortKeysRecursive a = sortKeysRecursive b"
proof (induction a b rule: same_record.induct)
  case (1 p w)
  then show ?case by simp
next
  case (2 xs w)
  from "2.prems" obtain ys where w: "w = JArr ys" and l: "list_all2 same_record xs ys"
    by (auto split: jsval.splits)
  have "list_all2 (\<lambda>x y. sortKeysRecursive x = sortKeysRecursive y) xs ys"
    using l "2.IH" [OF w] by (auto simp: list_all2_conv_all_nth)
  then have "map sortKeysRecursive xs = map sortKeysRecursive ys"
    by (induction rule: list_all2_induct) auto
  then show ?case using w by simp
next
  case (3 kvs w)
  from "3.prems" obtain kvs' where w: "w = JObj kvs'"
    and d: "distinct (map fst kvs)" and d': "distinct (map fst kvs')"
    and ks: "set (map fst kvs) = set (map fst kvs')"
    and vs: "\<forall>kv \<in> set kvs. case map_of kvs' (fst kv) of Some v' \<Rightarrow> same_record (snd kv) v' | None \<Rightarrow> False"
    by (auto split: jsval.splits)
  let ?g = "\<lambda>(k, v). (k, sortKeysRecursive v)"
  have s: "set (map ?g kvs) = set (map ?g kvs')"
  proof (rule keyed_image_subset [OF d' ks])
    fix kv v' assume kv: "kv \<in> set kvs" and m: "map_of kvs' (fst kv) = Some v'"
    then have "same_record (snd kv) v'" using vs by force
    then show "sortKeysRecursive (snd kv) = sortKeysRecursive v'"
      using "3.IH" [OF w kv m] by simp
  next
    fix kv assume "kv \<in> set kvs"
    then show "map_of kvs' (fst kv) \<noteq> None" using vs by (force split: option.splits)
  qed
  have "sort_key fst (map ?g kvs) = sort_key fst (map ?g kvs')"
    using d d' s by (intro sort_key_fst_unique) (simp_all add: comp_def case_prod_unfold)
  then show ?case using w by simp
qed

lemma stringify_sortKeys:
  "stringify (sortKeysRecursive v) = JSON_stringify (sortKeysRecursive v)"
  by (simp add: stringify_sorted sortKeysRecursive_idem)

subsection \<open>Reading undoes writing\<close>

lemma digit_table:
  "\<forall>k<10. is_digit (''0123456789'' ! k) \<and> digit_value (''0123456789'' ! k) = k"
  by (simp add: eval_nat_numeral All_less_Suc is_digit_def digit_value_def)

lemma digit_char_props: "is_digit (digit_char n) \<and> digit_value (digit_char n) = n mod 10"
  using digit_table by (simp add: digit_char_def)

lemma read_digits_append:
  assumes "\<forall>c \<in> set ds. is_digit c" and "ok_rest rest"
  shows "read_digits (ds @ rest) acc = (foldl (\<lambda>a c. 10 * a + digit_value c) acc ds, rest)"
  using assms
proof (induction ds arbitrary: acc)
  case Nil
  then show ?case by (cases rest) (simp_all add: ok_rest_def)
next
  case (Cons d ds)
  then show ?case by simp
qed

lemma show_nat_value:
  "(\<forall>c \<in> set (show_nat n). is_digit c) \<and> foldl (\<lambda>a c. 10 * a + digit_value c) 0 (show_nat n) = n
    \<and> show_nat n \<noteq> []"
proof (induction n rule: show_nat.induct)
  case (1 n)
  show ?case
  proof (cases "n < 10")
    case True
    then show ?thesis
      using digit_char_props [of n] by (subst (1 2 3) show_nat.simps) simp
  next
    case False
    then show ?thesis
      using 1 digit_char_props [of n] by (subst (1 2 3) show_nat.simps) simp
  qed
qed

lemma read_digits_show_nat:
  "ok_rest rest \<Longrightarrow> read_digits (show_nat n @ rest) 0 = (n, rest)"
  using show_nat_value [of n] by (simp add: read_digits_append)

lemma show_nat_hd: "\<exists>d ds. show_nat n = d # ds \<and> is_digit d"
  using show_nat_value [of n] by (cases "show_nat n") auto

lemma not_digit_minus: "\<not> is_digit (CHR ''-'')"
  by (simp add: is_digit_def)

lemma read_number_show_int:
  assumes "ok_rest rest"
  shows "read_number (show_int i @ rest) = Some (i, rest)"
proof -
  obtain d ds where d: "show_nat (nat (- i)) = d # ds" "is_digit d"
    using show_nat_hd by blast
  obtain e es where e: "show_nat (nat i) = e # es" "is_digit e"
    using show_nat_hd by blast
  show ?thesis
  proof (cases "i < 0")
    case True
    have "read_digits (show_nat (nat (- i)) @ rest) 0 = (nat (- i), rest)"
      using assms by (rule read_digits_show_nat)
    then show ?thesis
      using True d by (simp add: read_number_def show_int_def)
  next
    case False
    have "read_digits (show_nat (nat i) @ rest) 0 = (nat i, rest)"
      using assms by (rule read_digits_show_nat)
    then show ?thesis
      using False e not_digit_minus by (auto simp: read_number_def show_int_def)
  qed
qed

lemma hex_table: "\<forall>k<16. hex_value (''0123456789abcdef'' ! k) = Some k"
  by (simp add: eval_nat_numeral All_less_Suc hex_value_def)

lemma hex_value_hex_digit: "hex_value (hex_digit n) = Some (n mod 16)"
  using hex_table by (simp add: hex_digit_def)

lemma hex_value_zero: "hex_value (CHR ''0'') = Some 0"
  by (simp add: hex_value_def)

lemma read_string_control:
  assumes "(of_char c :: nat) < 32"
  shows "read_string ([CHR 0x5C, CHR ''u'', CHR ''0'', CHR ''0'',
            hex_digit (of_char c div 16), hex_digit (of_char c)] @ s') =
         map_option (apfst ((#) c)) (read_string s')"
proof -
  let ?n = "of_char c :: nat"
  have "?n div 16 mod 16 = ?n div 16" using assms by simp
  then have "((0 * 16 + 0) * 16 + ?n div 16 mod 16) * 16 + ?n mod 16 = ?n" by simp
  moreover have "char_of ?n = c" by simp
  ultimately show ?thesis
    using assms by (simp add: hex_value_hex_digit hex_value_zero)
qed

lemma read_string_escape_char:
  "read_string (escape_char c @ s') = map_option (apfst ((#) c)) (read_string s')"
proof (cases "c \<in> {CHR 0x22, CHR 0x5C, CHR 0x08, CHR 0x0C, CHR 0x0A, CHR 0x0D, CHR 0x09}")
  case True
  then show ?thesis by (auto simp: escape_char_def)
next
  case False
  show ?thesis
  proof (cases "(of_char c :: nat) < 32")
    case True
    then show ?thesis
      using False read_string_control [OF True, of s'] by (simp add: escape_char_def)
  next
    case ge: False
    then show ?thesis using False by (simp add: escape_char_def)
  qed
qed

lemma read_string_escaped:
  "read_string (concat (map escape_char s) @ CHR 0x22 # rest) = Some (s, rest)"
  by (induction s) (simp_all add: read_string_escape_char)

lemma read_string_quote:
  "quote s @ rest = CHR 0x22 # t \<Longrightarrow> read_string t = Some (s, rest)"
  using read_string_escaped [of s rest] by (simp add: quote_def)

lemma join_Cons: "xs \<noteq> [] \<Longrightarrow> join sep (x # xs) = x @ sep @ join sep xs"
  by (cases xs) simp_all

lemma ok_rest_simps [simp]:
  "ok_rest []" "ok_rest (CHR '','' # r)" "ok_rest (CHR '']'' # r)" "ok_rest (CHR ''}'' # r)"
  by (simp_all add: ok_rest_def is_digit_def)

lemma show_int_hd: "\<exists>c cs. show_int i = c # cs \<and> (c = CHR ''-'' \<or> is_digit c)"
  using show_nat_hd [of "nat i"] by (auto simp: show_int_def)

lemma prim_text_hd:
  "\<exists>c cs. prim_text p = c # cs \<and> c \<noteq> CHR '']'' \<and> c \<noteq> CHR ''}''"
proof (cases p)
  case (PNum i)
  then show ?thesis using show_int_hd [of i] by (auto simp: is_digit_def)
next
  case (PStr s)
  then show ?thesis by (simp add: quote_def)
qed auto

lemma JSON_stringify_hd:
  "\<exists>c cs. JSON_stringify v = c # cs \<and> c \<noteq> CHR '']'' \<and> c \<noteq> CHR ''}''"
  using prim_text_hd by (cases v) auto

lemma read_value_number:
  assumes "c \<noteq> CHR ''[''" "c \<noteq> CHR ''{''" "c \<noteq> CHR 0x22"
    and "c \<noteq> CHR ''n''" "c \<noteq> CHR ''t''" "c \<noteq> CHR ''f''"
  shows "read_value (Suc n) (c # s) =
           map_option (apfst (\<lambda>i. JLit (PNum i))) (read_number (c # s))"
  using assms by simp

lemma number_start:
  assumes "c = CHR ''-'' \<or> is_digit c"
  shows "c \<noteq> CHR ''[''" "c \<noteq> CHR ''{''" "c \<noteq> CHR 0x22"
    "c \<noteq> CHR ''n''" "c \<noteq> CHR ''t''" "c \<noteq> CHR ''f''"
  using assms by (auto simp: is_digit_def)

lemma read_value_prim:
  assumes "ok_rest rest"
  shows "read_value (Suc n) (prim_text p @ rest) = Some (JLit p, rest)"
proof (cases p)
  case PNull
  then show ?thesis by simp
next
  case (PBool b)
  then show ?thesis by simp
next
  case (PNum i)
  obtain c cs where c: "show_int i = c # cs" "c = CHR ''-'' \<or> is_digit c"
    using show_int_hd by blast
  have "read_number (c # cs @ rest) = Some (i, rest)"
    using read_number_show_int [OF assms, of i] c by simp
  then show ?thesis
    using PNum c(1) by (simp only: prim_text.simps append_Cons read_value_number [OF number_start [OF c(2)]]) simp
next
  case (PStr s)
  then show ?thesis
    using read_string_escaped [of s rest] by (simp add: quote_def)
qed

lemma read_elements_join:
  assumes "xs \<noteq> []" and "\<forall>x \<in> set xs. reads_back x"
    and "length (join '','' (map JSON_stringify xs)) + 1 \<le> m"
  shows "read_elements m (join '','' (map JSON_stringify xs) @ CHR '']'' # rest) = Some (xs, rest)"
  using assms
proof (induction xs arbitrary: m rule: list_nonempty_induct)
  case (single x)
  then obtain m' where m: "m = Suc m'" "length (JSON_stringify x) \<le> m'"
    by (cases m) auto
  have "read_value m' (JSON_stringify x @ CHR '']'' # rest) = Some (x, CHR '']'' # rest)"
    using single m by (simp add: reads_back_def)
  then show ?case using m by simp
next
  case (cons x xs)
  then obtain m' where m: "m = Suc m'" "length (JSON_stringify x) \<le> m'"
      "length (join '','' (map JSON_stringify xs)) + 1 \<le> m'"
    by (cases m) (auto simp: join_Cons)
  have "read_value m' (JSON_stringify x @ CHR '','' # join '','' (map JSON_stringify xs) @ CHR '']'' # rest)
      = Some (x, CHR '','' # join '','' (map JSON_stringify xs) @ CHR '']'' # rest)"
    using cons.prems m by (simp add: reads_back_def)
  moreover have "read_elements m' (join '','' (map JSON_stringify xs) @ CHR '']'' # rest) = Some (xs, rest)"
    using cons.IH cons.prems m by simp
  ultimately show ?case using m cons.hyps by (simp add: join_Cons)
qed

lemma read_members_join:
  assumes "kvs \<noteq> []" and "\<forall>kv \<in> set kvs. reads_back (snd kv)"
    and "length (join '','' (map (\<lambda>(k, v). quote k @ '':'' @ JSON_stringify v) kvs)) + 1 \<le> m"
  shows "read_members m (join '','' (map (\<lambda>(k, v). quote k @ '':'' @ JSON_stringify v) kvs) @ CHR ''}'' # rest)
           = Some (kvs, rest)"
  using assms
proof (induction kvs arbitrary: m rule: list_nonempty_induct)
  case (single kv)
  obtain k v where kv: "kv = (k, v)" by (cases kv)
  from single obtain m' where m: "m = Suc m'" "length (JSON_stringify v) \<le> m'"
    by (cases m) (auto simp: kv)
  have s: "read_string (concat (map escape_char k) @ CHR 0x22 # CHR '':'' # JSON_stringify v @ CHR ''}'' # rest)
      = Some (k, CHR '':'' # JSON_stringify v @ CHR ''}'' # rest)"
    by (rule read_string_escaped)
  have "read_value m' (JSON_stringify v @ CHR ''}'' # rest) = Some (v, CHR ''}'' # rest)"
    using single m by (simp add: reads_back_def kv)
  then show ?case using m s by (simp add: kv quote_def)
next
  case (cons kv kvs)
  obtain k v where kv: "kv = (k, v)" by (cases kv)
  let ?tail = "join '','' (map (\<lambda>(k, v). quote k @ '':'' @ JSON_stringify v) kvs)"
  from cons obtain m' where m: "m = Suc m'" "length (JSON_stringify v) \<le> m'"
      "length ?tail + 1 \<le> m'"
    by (cases m) (auto simp: join_Cons kv)
  have s: "read_string (concat (map escape_char k) @ CHR 0x22 # CHR '':'' # JSON_stringify v @ CHR '','' # ?tail @ CHR ''}'' # rest)
      = Some (k, CHR '':'' # JSON_stringify v @ CHR '','' # ?tail @ CHR ''}'' # rest)"
    by (rule read_string_escaped)
  have "read_value m' (JSON_stringify v @ CHR '','' # ?tail @ CHR ''}'' # rest)
      = Some (v, CHR '','' # ?tail @ CHR ''}'' # rest)"
    using cons.prems m by (simp add: reads_back_def kv)
  moreover have "read_members m' (?tail @ CHR ''}'' # rest) = Some (kvs, rest)"
    using cons.IH cons.prems m by simp
  ultimately show ?case using m s cons.hyps by (simp add: join_Cons kv quote_def)
qed

lemma reads_back_all: "reads_back v"
proof (induction v)
  case (JLit p)
  show ?case
    unfolding reads_back_def
  proof (intro allI impI)
    fix n rest assume n: "length (JSON_stringify (JLit p)) \<le> n" and r: "ok_rest rest"
    obtain c cs where "prim_text p = c # cs" using prim_text_hd by blast
    then obtain n' where "n = Suc n'" using n by (cases n) auto
    then show "read_value n (JSON_stringify (JLit p) @ rest) = Some (JLit p, rest)"
      using read_value_prim [OF r] by simp
  qed
next
  case (JArr xs)
  show ?case
    unfolding reads_back_def
  proof (intro allI impI)
    fix n rest assume n: "length (JSON_stringify (JArr xs)) \<le> n" and r: "ok_rest rest"
    then obtain n' where n': "n = Suc n'" "length (join '','' (map JSON_stringify xs)) + 1 \<le> n'"
      by (cases n) auto
    show "read_value n (JSON_stringify (JArr xs) @ rest) = Some (JArr xs, rest)"
    proof (cases xs)
      case Nil
      then show ?thesis using n' by simp
    next
      case (Cons x ys)
      obtain c cs where c: "JSON_stringify x = c # cs" "c \<noteq> CHR '']''"
        using JSON_stringify_hd by blast
      then obtain t where t: "join '','' (map JSON_stringify xs) = c # t"
        using Cons by (cases ys) auto
      have "read_elements n' (join '','' (map JSON_stringify xs) @ CHR '']'' # rest) = Some (xs, rest)"
        using JArr n' Cons by (intro read_elements_join) auto
      then show ?thesis using n' t c by simp
    qed
  qed
next
  case (JObj kvs)
  show ?case
    unfolding reads_back_def
  proof (intro allI impI)
    let ?body = "join '','' (map (\<lambda>(k, v). quote k @ '':'' @ JSON_stringify v) kvs)"
    fix n rest assume n: "length (JSON_stringify (JObj kvs)) \<le> n" and r: "ok_rest rest"
    then obtain n' where n': "n = Suc n'" "length ?body + 1 \<le> n'"
      by (cases n) auto
    show "read_value n (JSON_stringify (JObj kvs) @ rest) = Some (JObj kvs, rest)"
    proof (cases kvs)
      case Nil
      then show ?thesis using n' by simp
    next
      case (Cons kv ys)
      obtain t where t: "?body = CHR 0x22 # t"
        using Cons by (cases ys; cases kv) (auto simp: quote_def)
      have "\<forall>kv \<in> set kvs. reads_back (snd kv)"
        using JObj by (auto simp: snds.simps)
      then have "read_members n' (?body @ CHR ''}'' # rest) = Some (kvs, rest)"
        using n' Cons by (intro read_members_join) auto
      then show ?thesis using n' t by simp
    qed
  qed
qed

lemma decode_JSON_stringify: "decode (JSON_stringify v) = Some v"
proof -
  have "read_value (length (JSON_stringify v)) (JSON_stringify v @ []) = Some (v, [])"
    using reads_back_all [of v] unfolding reads_back_def by (simp del: append_Nil2)
  then show ?thesis by (simp add: decode_def)
qed

subsection \<open>The three records that the contract builds\<close>

lemma quote_keys:
  "quote ''RID'' = [CHR 0x22] @ ''RID'' @ [CHR 0x22]"
  "quote ''SID'' = [CHR 0x22] @ ''SID'' @ [CHR 0x22]"
  "quote ''Readings'' = [CHR 0x22] @ ''Readings'' @ [CHR 0x22]"
  "quote ''BPM'' = [CHR 0x22] @ ''BPM'' @ [CHR 0x22]"
  "quote ''HRV'' = [CHR 0x22] @ ''HRV'' @ [CHR 0x22]"
  "quote ''Time'' = [CHR 0x22] @ ''Time'' @ [CHR 0x22]"
  "quote ''TIme'' = [CHR 0x22] @ ''TIme'' @ [CHR 0x22]"
  "quote ''Team'' = [CHR 0x22] @ ''Team'' @ [CHR 0x22]"
  "quote ''docType'' = [CHR 0x22] @ ''docType'' @ [CHR 0x22]"
  by (simp_all add: quote_def escape_char_def)

lemma sorted_new_asset:
  "sortKeysRecursive (new_asset rid sid bpm hrv time team) =
     JObj [(''RID'', JLit (PStr rid)),
           (''Readings'', JObj [(''BPM'', JLit bpm), (''HRV'', JLit hrv)]),
           (''SID'', JLit sid),
           (''Team'', JLit team),
           (''Time'', JLit time)]"
  by (simp add: new_asset_def)

lemma sorted_updated_asset:
  "sortKeysRecursive (updated_asset rid sid bpm hrv time team) =
     JObj [(''RID'', JLit (PStr rid)),
           (''Readings'', JObj [(''BPM'', JLit bpm), (''HRV'', JLit hrv)]),
           (''SID'', JLit sid),
           (''TIme'', JLit time),
           (''Team'', JLit team)]"
  by (simp add: updated_asset_def)

lemma sorted_seed_asset:
  "sortKeysRecursive seed_asset =
     JObj [(''RID'', JLit (PStr ''101'')),
           (''Readings'', JObj [(''BPM'', JLit (PNum 100)), (''HRV'', JLit (PNum 10))]),
           (''SID'', JLit (PStr ''1'')),
           (''Team'', JLit (PStr ''team3'')),
           (''Time'', JLit (PStr ''2023-11-04T15:30:00.000Z'')),
           (''docType'', JLit (PStr ''asset''))]"
  by (simp add: seed_asset_def)

lemma canonical_records:
  "canonical (sortKeysRecursive seed_asset)"
  "canonical (sortKeysRecursive (new_asset rid sid bpm hrv time team))"
  "canonical (sortKeysRecursive (updated_asset rid sid bpm hrv time team))"
  by (simp_all add: sorted_seed_asset sorted_new_asset sorted_updated_asset)

lemma canonical_textI: "canonical v \<Longrightarrow> canonical_text (JSON_stringify v)"
  by (simp add: canonical_text_def decode_JSON_stringify)

lemma canonical_text_records:
  "canonical_text (stringify (sortKeysRecursive seed_asset))"
  "canonical_text (stringify (sortKeysRecursive (new_asset rid sid bpm hrv time team)))"
  "canonical_text (stringify (sortKeysRecursive (updated_asset rid sid bpm hrv time team)))"
  unfolding stringify_sortKeys
  by (rule canonical_textI, rule canonical_records)+

lemma stored_text_nonempty:
  "stringify (sortKeysRecursive (new_asset rid sid bpm hrv time team)) \<noteq> []"
  by (simp add: new_asset_def)

lemma returned_differs_from_stored:
  "JSON_stringify (new_asset rid sid bpm hrv time team) \<noteq>
   JSON_stringify (sortKeysRecursive (new_asset rid sid bpm hrv time team))"
  by (simp add: sorted_new_asset) (simp add: new_asset_def quote_keys)

lemma same_record_new_asset:
  "same_record (new_asset rid sid bpm hrv time team)
     (sortKeysRecursive (new_asset rid sid bpm hrv time team))"
  by (simp add: sorted_new_asset) (auto simp: new_asset_def)

subsection \<open>The invariant of the world state\<close>

lemma set_putState: "set (putState ctx k t) \<subseteq> insert (k, t) (set ctx)"
  unfolding putState_def by (induction ctx) auto

lemma set_deleteState: "set (deleteState ctx k) \<subseteq> set ctx"
  unfolding deleteState_def by (induction ctx) auto

lemma stored_canonical_putState:
  "stored_canonical ctx \<Longrightarrow> canonical_text t \<Longrightarrow> stored_canonical (putState ctx k t)"
  using set_putState [of ctx k t] by (auto simp: stored_canonical_def list_all_iff)

lemma stored_canonical_deleteState:
  "stored_canonical ctx \<Longrightarrow> stored_canonical (deleteState ctx k)"
  using set_deleteState [of ctx k] by (auto simp: stored_canonical_def list_all_iff)

lemma stored_canonical_after:
  assumes "stored_canonical ctx"
  shows "stored_canonical (after P ctx t)"
proof (cases t)
  case TxInitLedger
  then show ?thesis
    using assms by (simp add: InitLedger_def stored_canonical_putState canonical_text_records)
next
  case (TxCreateAsset rid sid bpm hrv time team)
  then show ?thesis
    using assms by (simp add: CreateAsset_unfold stored_canonical_putState canonical_text_records)
next
  case (TxReadAsset rid)
  then show ?thesis using assms by (simp add: ReadAsset_unfold)
next
  case (TxUpdateAsset rid sid bpm hrv time team)
  then show ?thesis
    using assms by (simp add: UpdateAsset_unfold stored_canonical_putState canonical_text_records)
next
  case (TxDeleteAsset rid)
  then show ?thesis
    using assms by (simp add: DeleteAsset_unfold stored_canonical_deleteState)
next
  case (TxAssetExists rid)
  then show ?thesis using assms by (simp add: AssetExists_cases)
next
  case TxGetAllAssets
  then show ?thesis using assms by (simp add: GetAllAssets_def)
qed

subsection \<open>White space\<close>

lemma hex_digit_range: "hex_digit n \<in> set ''0123456789abcdef''"
  unfolding hex_digit_def by (rule nth_mem) simp

lemma digit_char_range: "digit_char n \<in> set ''0123456789''"
  unfolding digit_char_def by (rule nth_mem) simp

lemma whitespace_hex_digit: "\<not> whitespace (hex_digit n)"
  using hex_digit_range [of n] by (auto simp: whitespace_def)

lemma whitespace_escape_char:
  "d \<in> set (escape_char c) \<Longrightarrow> whitespace d \<Longrightarrow> d = CHR 0x20 \<and> c = CHR 0x20"
  using whitespace_hex_digit [of "of_char c div 16"] whitespace_hex_digit [of "of_char c"]
  by (auto simp: escape_char_def whitespace_def split: if_splits)

lemma whitespace_quote:
  "d \<in> set (quote s) \<Longrightarrow> whitespace d \<Longrightarrow> d = CHR 0x20 \<and> d \<in> set s"
  by (auto simp: quote_def whitespace_def [of "CHR 0x22"] dest: whitespace_escape_char)

lemma show_nat_digits: "set (show_nat n) \<subseteq> set ''0123456789''"
proof (induction n rule: show_nat.induct)
  case (1 n)
  show ?case
  proof (cases "n < 10")
    case True
    then show ?thesis
      using digit_char_range [of n] by (subst show_nat.simps) simp
  next
    case False
    then show ?thesis
      using 1 digit_char_range [of n] by (subst show_nat.simps) simp
  qed
qed

lemma whitespace_show_int: "d \<in> set (show_int i) \<Longrightarrow> \<not> whitespace d"
  using show_nat_digits by (fastforce simp: show_int_def whitespace_def split: if_splits)

lemma whitespace_prim_text:
  "d \<in> set (prim_text p) \<Longrightarrow> whitespace d \<Longrightarrow> d = CHR 0x20 \<and> (\<exists>s. p = PStr s \<and> d \<in> set s)"
proof (cases p)
  case PNull
  then show "d \<in> set (prim_text p) \<Longrightarrow> whitespace d \<Longrightarrow> ?thesis" by (auto simp: whitespace_def)
next
  case (PBool b)
  then show "d \<in> set (prim_text p) \<Longrightarrow> whitespace d \<Longrightarrow> ?thesis" by (auto simp: whitespace_def split: if_splits)
next
  case (PNum n)
  then show "d \<in> set (prim_text p) \<Longrightarrow> whitespace d \<Longrightarrow> ?thesis" by (auto dest: whitespace_show_int)
next
  case (PStr s)
  then show "d \<in> set (prim_text p) \<Longrightarrow> whitespace d \<Longrightarrow> ?thesis" by (auto dest: whitespace_quote)
qed

lemma set_join: "set (join sep xs) \<subseteq> set sep \<union> (\<Union>x \<in> set xs. set x)"
  by (induction sep xs rule: join.induct) auto

lemma whitespace_JSON_stringify:
  "d \<in> set (JSON_stringify v) \<Longrightarrow> whitespace d \<Longrightarrow> d = CHR 0x20 \<and> (\<exists>s \<in> set (texts v). d \<in> set s)"
proof (induction v rule: JSON_stringify.induct)
  case (1 p)
  then show ?case by (auto dest: whitespace_prim_text)
next
  case (2 xs)
  from "2.prems" have "d \<in> set (join '','' (map JSON_stringify xs))"
    by (auto simp: whitespace_def)
  then obtain x where x: "x \<in> set xs" "d \<in> set (JSON_stringify x)"
    using set_join [of "'',''" "map JSON_stringify xs"] "2.prems"(2) by (auto simp: whitespace_def)
  from "2.IH" [OF x "2.prems"(2)] x show ?case by auto
next
  case (3 kvs)
  from "3.prems" have "d \<in> set (join '','' (map (\<lambda>(k, v). quote k @ '':'' @ JSON_stringify v) kvs))"
    by (auto simp: whitespace_def)
  then obtain k v where kv: "(k, v) \<in> set kvs" "d \<in> set (quote k @ '':'' @ JSON_stringify v)"
    using set_join [of "'',''" "map (\<lambda>(k, v). quote k @ '':'' @ JSON_stringify v) kvs"] "3.prems"(2)
    by (auto simp: whitespace_def)
  then consider "d \<in> set (quote k)" | "d \<in> set (JSON_stringify v)"
    using "3.prems"(2) by (auto simp: whitespace_def)
  then show ?case
  proof cases
    case 1
    then show ?thesis using kv(1) whitespace_quote [OF 1 "3.prems"(2)] by force
  next
    case 2
    from "3.IH" [OF kv(1) _ 2 "3.prems"(2)] kv(1) show ?thesis by force
  qed
qed

section \<open>The claims\<close>

text \<open>
  C1. Every record that \<^verbatim>\<open>InitLedger\<close>, \<^verbatim>\<open>CreateAsset\<close> or \<^verbatim>\<open>UpdateAsset\<close>
  persists is stored in canonical form: the value written is the compact JSON text of
  the record with the keys of every object ascending; the encoder puts no white space
  between the tokens (a blank in the text is a blank of a key or of a text value);
  two constructions of the same logical record, whatever the order in which their keys
  were set, are stored as the same bytes; and a world state whose values are all
  canonical texts stays so after every transaction.
\<close>

theorem canonical_storage:
  "(stored_canonical ctx \<longrightarrow> stored_canonical (after JSON_parse ctx t))
   \<and> snd (InitLedger ctx) = putState ctx ''101'' (JSON_stringify (sortKeysRecursive seed_asset))
   \<and> canonical (sortKeysRecursive seed_asset)
   \<and> (\<not> truthy (fst (AssetExists ctx rid)) \<longrightarrow>
        snd (CreateAsset ctx rid sid bpm hrv time team) =
          putState ctx rid (JSON_stringify (sortKeysRecursive (new_asset rid sid bpm hrv time team))))
   \<and> canonical (sortKeysRecursive (new_asset rid sid bpm hrv time team))
   \<and> (truthy (fst (AssetExists ctx rid)) \<longrightarrow>
        snd (UpdateAsset ctx rid sid bpm hrv time team) =
          putState ctx rid (JSON_stringify (sortKeysRecursive (updated_asset rid sid bpm hrv time team))))
   \<and> canonical (sortKeysRecursive (updated_asset rid sid bpm hrv time team))
   \<and> (same_record r r' \<longrightarrow> stringify (sortKeysRecursive r) = stringify (sortKeysRecursive r'))
   \<and> (d \<in> set (JSON_stringify v) \<and> whitespace d \<longrightarrow>
        d = CHR 0x20 \<and> (\<exists>s \<in> set (texts v). d \<in> set s))"
  using whitespace_JSON_stringify [of d v]
  by (simp add: stored_canonical_after InitLedger_def CreateAsset_unfold UpdateAsset_unfold
      stringify_sortKeys canonical_records same_record_sortKeys)

theorem canonical_storage_witness:
  "stored_canonical []
   \<and> stored_canonical (after (\<lambda>t. None) [] TxInitLedger)
   \<and> snd (InitLedger []) =
       [(''101'', ''{\"RID\":\"101\",\"Readings\":{\"BPM\":100,\"HRV\":10},\"SID\":\"1\",\"Team\":\"team3\",\"Time\":\"2023-11-04T15:30:00.000Z\",\"docType\":\"asset\"}'')]
   \<and> \<not> truthy (fst (AssetExists [] ''200''))
   \<and> snd (CreateAsset [] ''200'' (PStr ''5'') (PNum 88) (PNum 12) (PStr ''t 0'') (PStr ''team3'')) =
       [(''200'', ''{\"RID\":\"200\",\"Readings\":{\"BPM\":88,\"HRV\":12},\"SID\":\"5\",\"Team\":\"team3\",\"Time\":\"t 0\"}'')]
   \<and> truthy (fst (AssetExists [(''200'', ''old'')] ''200''))
   \<and> snd (UpdateAsset [(''200'', ''old'')] ''200'' (PStr ''5'') (PNum 88) (PNum 12) (PStr ''t 0'') (PStr ''team3'')) =
       [(''200'', ''{\"RID\":\"200\",\"Readings\":{\"BPM\":88,\"HRV\":12},\"SID\":\"5\",\"TIme\":\"t 0\",\"Team\":\"team3\"}'')]
   \<and> same_record
         (JObj [(''Team'', JLit (PStr ''team3'')), (''Time'', JLit (PStr ''t 0'')),
                (''Readings'', JObj [(''HRV'', JLit (PNum 12)), (''BPM'', JLit (PNum 88))]),
                (''SID'', JLit (PStr ''5'')), (''RID'', JLit (PStr ''200''))])
         (new_asset ''200'' (PStr ''5'') (PNum 88) (PNum 12) (PStr ''t 0'') (PStr ''team3''))
   \<and> stringify (sortKeysRecursive
         (JObj [(''Team'', JLit (PStr ''team3'')), (''Time'', JLit (PStr ''t 0'')),
                (''Readings'', JObj [(''HRV'', JLit (PNum 12)), (''BPM'', JLit (PNum 88))]),
                (''SID'', JLit (PStr ''5'')), (''RID'', JLit (PStr ''200''))])) =
       ''{\"RID\":\"200\",\"Readings\":{\"BPM\":88,\"HRV\":12},\"SID\":\"5\",\"Team\":\"team3\",\"Time\":\"t 0\"}''
   \<and> CHR 0x20 \<in> set (JSON_stringify (sortKeysRecursive (new_asset ''200'' (PStr ''5'') (PNum 88) (PNum 12) (PStr ''t 0'') (PStr ''team3''))))
   \<and> whitespace (CHR 0x20)
   \<and> CHR 0x20 \<in> set ''t 0''
   \<and> \<not> canonical_text ''{\"SID\":\"5\",\"RID\":\"200\"}''
   \<and> \<not> canonical_text ''{\"RID\": \"200\"}''"
proof -
  let ?r = "JObj [(''Team'', JLit (PStr ''team3'')), (''Time'', JLit (PStr ''t 0'')),
                (''Readings'', JObj [(''HRV'', JLit (PNum 12)), (''BPM'', JLit (PNum 88))]),
                (''SID'', JLit (PStr ''5'')), (''RID'', JLit (PStr ''200''))]"
  let ?a = "new_asset ''200'' (PStr ''5'') (PNum 88) (PNum 12) (PStr ''t 0'') (PStr ''team3'')"
  let ?u = "updated_asset ''200'' (PStr ''5'') (PNum 88) (PNum 12) (PStr ''t 0'') (PStr ''team3'')"
  have i: "stored_canonical []"
    by (simp add: stored_canonical_def getState_def)
  have n: "\<not> truthy (fst (AssetExists [] ''200''))"
    by (simp add: AssetExists_def getState_def)
  have y: "truthy (fst (AssetExists [(''200'', ''old'')] ''200''))"
    by (simp add: AssetExists_def getState_def)
  have sr: "same_record ?r ?a"
    by (simp add: new_asset_def insert_commute)
  have es: "JSON_stringify (sortKeysRecursive seed_asset) =
      ''{\"RID\":\"101\",\"Readings\":{\"BPM\":100,\"HRV\":10},\"SID\":\"1\",\"Team\":\"team3\",\"Time\":\"2023-11-04T15:30:00.000Z\",\"docType\":\"asset\"}''"
    by code_simp
  have ea: "JSON_stringify (sortKeysRecursive ?a) =
      ''{\"RID\":\"200\",\"Readings\":{\"BPM\":88,\"HRV\":12},\"SID\":\"5\",\"Team\":\"team3\",\"Time\":\"t 0\"}''"
    by code_simp
  have eu: "JSON_stringify (sortKeysRecursive ?u) =
      ''{\"RID\":\"200\",\"Readings\":{\"BPM\":88,\"HRV\":12},\"SID\":\"5\",\"TIme\":\"t 0\",\"Team\":\"team3\"}''"
    by code_simp
  have w: "CHR 0x20 \<in> set (JSON_stringify (sortKeysRecursive ?a))" "whitespace (CHR 0x20)"
    unfolding ea by (simp_all add: whitespace_def)
  note A = canonical_storage [of "[]" "\<lambda>t. None" TxInitLedger "''200''" "PStr ''5''" "PNum 88" "PNum 12"
      "PStr ''t 0''" "PStr ''team3''" ?r ?a "CHR 0x20" "sortKeysRecursive ?a"]
  note B = canonical_storage [of "[(''200'', ''old'')]" "\<lambda>t. None" TxInitLedger "''200''" "PStr ''5''" "PNum 88" "PNum 12"
      "PStr ''t 0''" "PStr ''team3''" ?r ?a "CHR 0x20" "sortKeysRecursive ?a"]
  have 1: "stored_canonical (after (\<lambda>t. None) [] TxInitLedger)" using A i by blast
  have 2: "snd (InitLedger []) = putState [] ''101'' (JSON_stringify (sortKeysRecursive seed_asset))"
    using A by blast
  have 3: "snd (CreateAsset [] ''200'' (PStr ''5'') (PNum 88) (PNum 12) (PStr ''t 0'') (PStr ''team3'')) =
      putState [] ''200'' (JSON_stringify (sortKeysRecursive ?a))"
    using A n by blast
  have 4: "snd (UpdateAsset [(''200'', ''old'')] ''200'' (PStr ''5'') (PNum 88) (PNum 12) (PStr ''t 0'') (PStr ''team3'')) =
      putState [(''200'', ''old'')] ''200'' (JSON_stringify (sortKeysRecursive ?u))"
    using B y by blast
  have 5: "stringify (sortKeysRecursive ?r) = stringify (sortKeysRecursive ?a)"
    using A sr by blast
  have 6: "CHR 0x20 \<in> set ''t 0''" by simp
  have 7: "\<not> canonical_text ''{\"SID\":\"5\",\"RID\":\"200\"}''"
    "\<not> canonical_text ''{\"RID\": \"200\"}''"
    by code_simp+
  show ?thesis
    using i 1 2 3 4 5 6 7 n y sr w
    by (simp add: es ea eu putState_def stringify_sortKeys)
qed

text \<open>
  C2. For a rid with no asset, \<^verbatim>\<open>CreateAsset\<close> followed by \<^verbatim>\<open>ReadAsset\<close> of the
  same rid returns a text that decodes to a record whose members RID, SID, Readings (with
  BPM and HRV), Time and Team are the arguments of the creation, with no member besides,
  and that is the same logical record as the one \<^verbatim>\<open>CreateAsset\<close> built.
\<close>

theorem create_then_read:
  assumes "\<not> truthy (fst (AssetExists ctx rid))"
  shows "ReadAsset (snd (CreateAsset ctx rid sid bpm hrv time team)) rid =
           (Inr (JSON_stringify (sortKeysRecursive (new_asset rid sid bpm hrv time team))),
            snd (CreateAsset ctx rid sid bpm hrv time team))
       \<and> decode (JSON_stringify (sortKeysRecursive (new_asset rid sid bpm hrv time team))) =
           Some (sortKeysRecursive (new_asset rid sid bpm hrv time team))
       \<and> member (sortKeysRecursive (new_asset rid sid bpm hrv time team)) ''RID'' = Some (JLit (PStr rid))
       \<and> member (sortKeysRecursive (new_asset rid sid bpm hrv time team)) ''SID'' = Some (JLit sid)
       \<and> member (sortKeysRecursive (new_asset rid sid bpm hrv time team)) ''Readings'' =
           Some (JObj [(''BPM'', JLit bpm), (''HRV'', JLit hrv)])
       \<and> member (sortKeysRecursive (new_asset rid sid bpm hrv time team)) ''Time'' = Some (JLit time)
       \<and> member (sortKeysRecursive (new_asset rid sid bpm hrv time team)) ''Team'' = Some (JLit team)
       \<and> length (entries (sortKeysRecursive (new_asset rid sid bpm hrv time team))) = 5
       \<and> same_record (new_asset rid sid bpm hrv time team)
            (sortKeysRecursive (new_asset rid sid bpm hrv time team))"
  using assms
  by (simp add: CreateAsset_unfold ReadAsset_def getState_putState stringify_sortKeys
      stored_text_nonempty [unfolded stringify_sortKeys] same_record_new_asset member_def
      decode_JSON_stringify)
     (simp add: sorted_new_asset)

theorem create_then_read_witness:
  "\<not> truthy (fst (AssetExists [] ''200''))
   \<and> fst (ReadAsset (snd (CreateAsset [] ''200'' (PStr ''5'') (PNum 88) (PNum 12) (PStr ''2024-01-01T00:00:00.000Z'') (PStr ''team3''))) ''200'') =
       Inr ''{\"RID\":\"200\",\"Readings\":{\"BPM\":88,\"HRV\":12},\"SID\":\"5\",\"Team\":\"team3\",\"Time\":\"2024-01-01T00:00:00.000Z\"}''
   \<and> decode ''{\"RID\":\"200\",\"Readings\":{\"BPM\":88,\"HRV\":12},\"SID\":\"5\",\"Team\":\"team3\",\"Time\":\"2024-01-01T00:00:00.000Z\"}'' =
       Some (JObj [(''RID'', JLit (PStr ''200'')),
                   (''Readings'', JObj [(''BPM'', JLit (PNum 88)), (''HRV'', JLit (PNum 12))]),
                   (''SID'', JLit (PStr ''5'')),
                   (''Team'', JLit (PStr ''team3'')),
                   (''Time'', JLit (PStr ''2024-01-01T00:00:00.000Z''))])"
proof -
  let ?a = "new_asset ''200'' (PStr ''5'') (PNum 88) (PNum 12) (PStr ''2024-01-01T00:00:00.000Z'') (PStr ''team3'')"
  have h: "\<not> truthy (fst (AssetExists [] ''200''))"
    by (simp add: AssetExists_def getState_def)
  have e: "JSON_stringify (sortKeysRecursive ?a) =
      ''{\"RID\":\"200\",\"Readings\":{\"BPM\":88,\"HRV\":12},\"SID\":\"5\",\"Team\":\"team3\",\"Time\":\"2024-01-01T00:00:00.000Z\"}''"
    by code_simp
  have r: "sortKeysRecursive ?a =
      JObj [(''RID'', JLit (PStr ''200'')),
            (''Readings'', JObj [(''BPM'', JLit (PNum 88)), (''HRV'', JLit (PNum 12))]),
            (''SID'', JLit (PStr ''5'')),
            (''Team'', JLit (PStr ''team3'')),
            (''Time'', JLit (PStr ''2024-01-01T00:00:00.000Z''))]"
    by (rule sorted_new_asset)
  note T = create_then_read [OF h, of "PStr ''5''" "PNum 88" "PNum 12" "PStr ''2024-01-01T00:00:00.000Z''" "PStr ''team3''"]
  have 1: "fst (ReadAsset (snd (CreateAsset [] ''200'' (PStr ''5'') (PNum 88) (PNum 12) (PStr ''2024-01-01T00:00:00.000Z'') (PStr ''team3''))) ''200'') =
      Inr (JSON_stringify (sortKeysRecursive ?a))"
    using T by simp
  have 2: "decode (JSON_stringify (sortKeysRecursive ?a)) = Some (sortKeysRecursive ?a)"
    using T by blast
  show ?thesis
    using h 1 [unfolded e] 2 [unfolded e, unfolded r] by blast
qed

text \<open>
  C3. On an existing rid \<^verbatim>\<open>UpdateAsset\<close> replaces the value under the key by the
  canonical text of the record built from its arguments alone; that record has the
  timestamp under the key \<^verbatim>\<open>TIme\<close> and has no key \<^verbatim>\<open>Time\<close>, while the record of
  \<^verbatim>\<open>CreateAsset\<close> has \<^verbatim>\<open>Time\<close> and no \<^verbatim>\<open>TIme\<close>.
\<close>

theorem UpdateAsset_overwrites:
  assumes "truthy (fst (AssetExists ctx rid))"
  shows "UpdateAsset ctx rid sid bpm hrv time team =
           (Inr (), putState ctx rid (stringify (sortKeysRecursive (updated_asset rid sid bpm hrv time team))))
       \<and> getState (snd (UpdateAsset ctx rid sid bpm hrv time team)) rid =
           Some (JSON_stringify
             (JObj [(''RID'', JLit (PStr rid)),
                    (''Readings'', JObj [(''BPM'', JLit bpm), (''HRV'', JLit hrv)]),
                    (''SID'', JLit sid),
                    (''TIme'', JLit time),
                    (''Team'', JLit team)]))
       \<and> member (sortKeysRecursive (updated_asset rid sid bpm hrv time team)) ''TIme'' = Some (JLit time)
       \<and> member (sortKeysRecursive (updated_asset rid sid bpm hrv time team)) ''Time'' = None
       \<and> member (sortKeysRecursive (new_asset rid sid bpm hrv time team)) ''Time'' = Some (JLit time)
       \<and> member (sortKeysRecursive (new_asset rid sid bpm hrv time team)) ''TIme'' = None"
  using assms
  by (simp add: UpdateAsset_unfold getState_putState stringify_sortKeys member_def)
     (simp add: sorted_updated_asset sorted_new_asset)

theorem UpdateAsset_overwrites_witness:
  "truthy (fst (AssetExists [(''101'', ''old'')] ''101''))
   \<and> UpdateAsset [(''101'', ''old'')] ''101'' (PStr ''5'') (PNum 88) (PNum (-12)) (PStr ''2024-01-01T00:00:00.000Z'') (PStr ''team 3'') =
      (Inr (), [(''101'', ''{\"RID\":\"101\",\"Readings\":{\"BPM\":88,\"HRV\":-12},\"SID\":\"5\",\"TIme\":\"2024-01-01T00:00:00.000Z\",\"Team\":\"team 3\"}'')])"
proof -
  have h: "truthy (fst (AssetExists [(''101'', ''old'')] ''101''))"
    by (simp add: AssetExists_def getState_def)
  have e: "stringify (sortKeysRecursive (updated_asset ''101'' (PStr ''5'') (PNum 88) (PNum (-12)) (PStr ''2024-01-01T00:00:00.000Z'') (PStr ''team 3''))) =
   ''{\"RID\":\"101\",\"Readings\":{\"BPM\":88,\"HRV\":-12},\"SID\":\"5\",\"TIme\":\"2024-01-01T00:00:00.000Z\",\"Team\":\"team 3\"}''"
    by code_simp
  show ?thesis
    using h UpdateAsset_overwrites [OF h, of "PStr ''5''" "PNum 88" "PNum (-12)" "PStr ''2024-01-01T00:00:00.000Z''" "PStr ''team 3''"]
    by (simp add: e putState_def)
qed

text \<open>
  C4. \<^verbatim>\<open>CreateAsset\<close> on a rid whose asset exists fails with the error
  ``already exists'' and leaves the world state as it was.
\<close>

theorem CreateAsset_existing:
  assumes "truthy (fst (AssetExists ctx rid))"
  shows "CreateAsset ctx rid sid bpm hrv time team =
           (Inl (Error (''The asset '' @ rid @ '' already exists'')), ctx)"
  using assms by (simp add: CreateAsset_unfold)

theorem CreateAsset_existing_witness:
  "truthy (fst (AssetExists [(''101'', ''{}'')] ''101'')) \<and>
   CreateAsset [(''101'', ''{}'')] ''101'' (PStr ''1'') (PNum 100) (PNum 10) (PStr ''t'') (PStr ''team3'') =
     (Inl (Error ''The asset 101 already exists''), [(''101'', ''{}'')])"
proof -
  have h: "truthy (fst (AssetExists [(''101'', ''{}'')] ''101''))"
    by (simp add: AssetExists_def getState_def)
  show ?thesis
    using h CreateAsset_existing [OF h, of "PStr ''1''" "PNum 100" "PNum 10" "PStr ''t''" "PStr ''team3''"]
    by simp
qed

text \<open>
  C5. On a rid whose stored value is absent or empty, \<^verbatim>\<open>ReadAsset\<close>,
  \<^verbatim>\<open>UpdateAsset\<close> and \<^verbatim>\<open>DeleteAsset\<close> each fail with the error ``does not exist''
  and leave the world state as it was.
\<close>

theorem missing_asset_fails:
  assumes "getState ctx rid = None \<or> getState ctx rid = Some []"
  shows "ReadAsset ctx rid = (Inl (Error (''The asset '' @ rid @ '' does not exist'')), ctx)
       \<and> UpdateAsset ctx rid sid bpm hrv time team =
           (Inl (Error (''The asset '' @ rid @ '' does not exist'')), ctx)
       \<and> DeleteAsset ctx rid = (Inl (Error (''The asset '' @ rid @ '' does not exist'')), ctx)"
  using assms
  by (auto simp: ReadAsset_unfold UpdateAsset_unfold DeleteAsset_unfold truthy_AssetExists)

theorem missing_asset_fails_witness:
  "getState [(''7'', [])] ''101'' = None
   \<and> getState [(''7'', [])] ''7'' = Some []
   \<and> ReadAsset [(''7'', [])] ''101'' = (Inl (Error ''The asset 101 does not exist''), [(''7'', [])])
   \<and> ReadAsset [(''7'', [])] ''7'' = (Inl (Error ''The asset 7 does not exist''), [(''7'', [])])
   \<and> UpdateAsset [(''7'', [])] ''7'' (PStr ''1'') (PNum 100) (PNum 10) (PStr ''t'') (PStr ''team3'') =
       (Inl (Error ''The asset 7 does not exist''), [(''7'', [])])
   \<and> DeleteAsset [(''7'', [])] ''101'' = (Inl (Error ''The asset 101 does not exist''), [(''7'', [])])
   \<and> DeleteAsset [(''7'', [])] ''7'' = (Inl (Error ''The asset 7 does not exist''), [(''7'', [])])"
proof -
  have a: "getState [(''7'', [])] ''101'' = None"
    and b: "getState [(''7'', [])] ''7'' = Some []"
    by (simp_all add: getState_def)
  have a': "getState [(''7'', [])] ''101'' = None \<or> getState [(''7'', [])] ''101'' = Some []"
    using a by simp
  have b': "getState [(''7'', [])] ''7'' = None \<or> getState [(''7'', [])] ''7'' = Some []"
    using b by simp
  show ?thesis
    using a b missing_asset_fails [OF a']
      missing_asset_fails [OF b', of "PStr ''1''" "PNum 100" "PNum 10" "PStr ''t''" "PStr ''team3''"]
    by simp
qed

text \<open>
  C6. \<^verbatim>\<open>GetAllAssets\<close> never fails; it reads the open-ended range scan, which is the
  whole world state, to its end, and collects one result for each entry, in the order of
  the scan: the decoded value, or the raw text of the entry when the text does not
  decode. In a world state with one entry for each key, each stored value is at exactly
  one position of the scan.
\<close>

theorem GetAllAssets_lists_every_entry:
  "GetAllAssets JSON_parse ctx =
     (Inr (JSON_stringify (JArr (map (\<lambda>kv. case JSON_parse (snd kv) of
                                             Some parsed \<Rightarrow> parsed
                                           | None \<Rightarrow> JLit (PStr (snd kv)))
                                   (getStateByRange ctx [] [])))), ctx)
   \<and> getStateByRange ctx [] [] = ctx
   \<and> length (drain JSON_parse ctx []) = length ctx
   \<and> (\<forall>i < length ctx.
        drain JSON_parse ctx [] ! i =
          (case JSON_parse (snd (ctx ! i)) of
             Some parsed \<Rightarrow> parsed
           | None \<Rightarrow> JLit (PStr (snd (ctx ! i)))))
   \<and> (distinct (map fst ctx) \<longrightarrow>
        (\<forall>k v. getState ctx k = Some v \<longrightarrow> (\<exists>!i. i < length ctx \<and> ctx ! i = (k, v))))"
proof -
  have "\<exists>!i. i < length ctx \<and> ctx ! i = (k, v)"
    if d: "distinct (map fst ctx)" and g: "getState ctx k = Some v" for k v
  proof -
    have "(k, v) \<in> set ctx" using g by (auto simp: getState_def dest: map_of_SomeD)
    then obtain i where i: "i < length ctx" "ctx ! i = (k, v)" by (auto simp: in_set_conv_nth)
    have "distinct ctx" using d by (simp add: distinct_map)
    then have "j = i" if "j < length ctx" "ctx ! j = (k, v)" for j
      using that i by (metis nth_eq_iff_index_eq)
    then show ?thesis using i by blast
  qed
  then show ?thesis
    by (simp add: GetAllAssets_def getStateByRange_open drain_map)
qed

theorem GetAllAssets_lists_every_entry_witness:
  "distinct (map fst [(''101'', ''{\"RID\":\"101\"}''), (''7'', ''not json''), (''8'', [])])
   \<and> GetAllAssets decode [(''101'', ''{\"RID\":\"101\"}''), (''7'', ''not json''), (''8'', [])] =
       (Inr ''[{\"RID\":\"101\"},\"not json\",\"\"]'',
        [(''101'', ''{\"RID\":\"101\"}''), (''7'', ''not json''), (''8'', [])])
   \<and> drain decode [(''101'', ''{\"RID\":\"101\"}''), (''7'', ''not json''), (''8'', [])] [] =
       [JObj [(''RID'', JLit (PStr ''101''))], JLit (PStr ''not json''), JLit (PStr [])]
   \<and> decode ''not json'' = None"
proof -
  let ?ctx = "[(''101'', ''{\"RID\":\"101\"}''), (''7'', ''not json''), (''8'', [])]"
  have d: "distinct (map fst ?ctx)" by simp
  have p: "decode ''{\"RID\":\"101\"}'' = Some (JObj [(''RID'', JLit (PStr ''101''))])"
    "decode ''not json'' = None" "decode [] = None"
    by code_simp+
  have e: "drain decode ?ctx [] =
      [JObj [(''RID'', JLit (PStr ''101''))], JLit (PStr ''not json''), JLit (PStr [])]"
    by (simp add: p)
  have m: "map (\<lambda>kv. case decode (snd kv) of Some parsed \<Rightarrow> parsed | None \<Rightarrow> JLit (PStr (snd kv))) ?ctx =
      [JObj [(''RID'', JLit (PStr ''101''))], JLit (PStr ''not json''), JLit (PStr [])]"
    by (simp add: p)
  have t: "JSON_stringify (JArr [JObj [(''RID'', JLit (PStr ''101''))], JLit (PStr ''not json''), JLit (PStr [])]) =
      ''[{\"RID\":\"101\"},\"not json\",\"\"]''"
    by code_simp
  have g: "GetAllAssets decode ?ctx =
      (Inr (JSON_stringify (JArr (map (\<lambda>kv. case decode (snd kv) of Some parsed \<Rightarrow> parsed | None \<Rightarrow> JLit (PStr (snd kv)))
         (getStateByRange ?ctx [] [])))), ?ctx)"
    and s: "getStateByRange ?ctx [] [] = ?ctx"
    using GetAllAssets_lists_every_entry [of decode ?ctx] by blast+
  have r: "GetAllAssets decode ?ctx = (Inr ''[{\"RID\":\"101\"},\"not json\",\"\"]'', ?ctx)"
    by (simp only: g s m t)
  show ?thesis
    by (intro conjI d r e p(2))
qed



text \<open>
  C8. A successful \<^verbatim>\<open>CreateAsset\<close> returns the JSON text of the record in the order
  of construction (RID, SID, Readings, Time, Team); the value it stores is the text of the
  same record in sorted order (RID, Readings, SID, Team, Time); the two texts differ, and
  they decode to the two records, which are the same logical record.
\<close>

theorem CreateAsset_returns_insertion_order:
  assumes "\<not> truthy (fst (AssetExists ctx rid))"
  shows "fst (CreateAsset ctx rid sid bpm hrv time team) =
           Inr (JSON_stringify (new_asset rid sid bpm hrv time team))
       \<and> JSON_stringify (new_asset rid sid bpm hrv time team) =
           ''{'' @ quote ''RID'' @ '':'' @ quote rid @ '',''
                @ quote ''SID'' @ '':'' @ prim_text sid @ '',''
                @ quote ''Readings'' @ '':'' @ ''{'' @ quote ''BPM'' @ '':'' @ prim_text bpm @ '',''
                                                   @ quote ''HRV'' @ '':'' @ prim_text hrv @ ''}'' @ '',''
                @ quote ''Time'' @ '':'' @ prim_text time @ '',''
                @ quote ''Team'' @ '':'' @ prim_text team @ ''}''
       \<and> getState (snd (CreateAsset ctx rid sid bpm hrv time team)) rid =
           Some (JSON_stringify (sortKeysRecursive (new_asset rid sid bpm hrv time team)))
       \<and> map fst (entries (new_asset rid sid bpm hrv time team)) =
           [''RID'', ''SID'', ''Readings'', ''Time'', ''Team'']
       \<and> map fst (entries (sortKeysRecursive (new_asset rid sid bpm hrv time team))) =
           [''RID'', ''Readings'', ''SID'', ''Team'', ''Time'']
       \<and> JSON_stringify (new_asset rid sid bpm hrv time team) \<noteq>
           JSON_stringify (sortKeysRecursive (new_asset rid sid bpm hrv time team))
       \<and> decode (JSON_stringify (new_asset rid sid bpm hrv time team)) =
           Some (new_asset rid sid bpm hrv time team)
       \<and> decode (JSON_stringify (sortKeysRecursive (new_asset rid sid bpm hrv time team))) =
           Some (sortKeysRecursive (new_asset rid sid bpm hrv time team))
       \<and> same_record (new_asset rid sid bpm hrv time team)
            (sortKeysRecursive (new_asset rid sid bpm hrv time team))"
  using assms
  by (simp add: CreateAsset_unfold getState_putState stringify_sortKeys
      returned_differs_from_stored same_record_new_asset decode_JSON_stringify)
     (simp add: sorted_new_asset, simp add: new_asset_def)

theorem CreateAsset_returns_insertion_order_witness:
  "\<not> truthy (fst (AssetExists [] ''200''))
   \<and> CreateAsset [] ''200'' (PStr ''5'') (PNum 88) (PNum 12) (PStr ''2024-01-01T00:00:00.000Z'') (PStr ''team3'') =
       (Inr ''{\"RID\":\"200\",\"SID\":\"5\",\"Readings\":{\"BPM\":88,\"HRV\":12},\"Time\":\"2024-01-01T00:00:00.000Z\",\"Team\":\"team3\"}'',
        [(''200'', ''{\"RID\":\"200\",\"Readings\":{\"BPM\":88,\"HRV\":12},\"SID\":\"5\",\"Team\":\"team3\",\"Time\":\"2024-01-01T00:00:00.000Z\"}'')])"
proof -
  have h: "\<not> truthy (fst (AssetExists [] ''200''))"
    by (simp add: AssetExists_def getState_def)
  have r: "JSON_stringify (new_asset ''200'' (PStr ''5'') (PNum 88) (PNum 12) (PStr ''2024-01-01T00:00:00.000Z'') (PStr ''team3'')) =
      ''{\"RID\":\"200\",\"SID\":\"5\",\"Readings\":{\"BPM\":88,\"HRV\":12},\"Time\":\"2024-01-01T00:00:00.000Z\",\"Team\":\"team3\"}''"
    by code_simp
  have e: "JSON_stringify (sortKeysRecursive (new_asset ''200'' (PStr ''5'') (PNum 88) (PNum 12) (PStr ''2024-01-01T00:00:00.000Z'') (PStr ''team3''))) =
      ''{\"RID\":\"200\",\"Readings\":{\"BPM\":88,\"HRV\":12},\"SID\":\"5\",\"Team\":\"team3\",\"Time\":\"2024-01-01T00:00:00.000Z\"}''"
    by code_simp
  have c: "snd (CreateAsset [] ''200'' (PStr ''5'') (PNum 88) (PNum 12) (PStr ''2024-01-01T00:00:00.000Z'') (PStr ''team3'')) =
      [(''200'', stringify (sortKeysRecursive (new_asset ''200'' (PStr ''5'') (PNum 88) (PNum 12) (PStr ''2024-01-01T00:00:00.000Z'') (PStr ''team3''))))]"
    using h by (simp add: CreateAsset_unfold putState_def)
  show ?thesis
    using h c CreateAsset_returns_insertion_order [OF h, of "PStr ''5''" "PNum 88" "PNum 12" "PStr ''2024-01-01T00:00:00.000Z''" "PStr ''team3''"]
    by (simp add: r e stringify_sortKeys prod_eq_iff)
qed

text \<open>
  C9. A stored value of length zero counts as no asset: \<^verbatim>\<open>AssetExists\<close> returns
  \<^verbatim>\<open>false\<close>, \<^verbatim>\<open>ReadAsset\<close> fails with ``does not exist'', and \<^verbatim>\<open>CreateAsset\<close>
  succeeds and puts the canonical text of the new record in the place of the empty value.
\<close>

theorem empty_value_is_absent:
  assumes "getState ctx rid = Some []"
  shows "fst (AssetExists ctx rid) = PBool False
       \<and> ReadAsset ctx rid = (Inl (Error (''The asset '' @ rid @ '' does not exist'')), ctx)
       \<and> CreateAsset ctx rid sid bpm hrv time team =
           (Inr (JSON_stringify (new_asset rid sid bpm hrv time team)),
            putState ctx rid (stringify (sortKeysRecursive (new_asset rid sid bpm hrv time team))))
       \<and> getState (snd (CreateAsset ctx rid sid bpm hrv time team)) rid =
           Some (stringify (sortKeysRecursive (new_asset rid sid bpm hrv time team)))
       \<and> truthy (fst (AssetExists (snd (CreateAsset ctx rid sid bpm hrv time team)) rid))"
  using assms
  by (simp add: AssetExists_cases ReadAsset_def CreateAsset_unfold getState_putState
      stored_text_nonempty)

theorem empty_value_is_absent_witness:
  "getState [(''7'', [])] ''7'' = Some []
   \<and> fst (AssetExists [(''7'', [])] ''7'') = PBool False
   \<and> ReadAsset [(''7'', [])] ''7'' = (Inl (Error ''The asset 7 does not exist''), [(''7'', [])])
   \<and> CreateAsset [(''7'', [])] ''7'' (PStr ''5'') (PNum 88) (PNum 12) (PStr ''t0'') (PStr ''team3'') =
       (Inr ''{\"RID\":\"7\",\"SID\":\"5\",\"Readings\":{\"BPM\":88,\"HRV\":12},\"Time\":\"t0\",\"Team\":\"team3\"}'',
        [(''7'', ''{\"RID\":\"7\",\"Readings\":{\"BPM\":88,\"HRV\":12},\"SID\":\"5\",\"Team\":\"team3\",\"Time\":\"t0\"}'')])"
proof -
  have h: "getState [(''7'', [])] ''7'' = Some []"
    by (simp add: getState_def)
  have r: "JSON_stringify (new_asset ''7'' (PStr ''5'') (PNum 88) (PNum 12) (PStr ''t0'') (PStr ''team3'')) =
      ''{\"RID\":\"7\",\"SID\":\"5\",\"Readings\":{\"BPM\":88,\"HRV\":12},\"Time\":\"t0\",\"Team\":\"team3\"}''"
    by code_simp
  have s: "stringify (sortKeysRecursive (new_asset ''7'' (PStr ''5'') (PNum 88) (PNum 12) (PStr ''t0'') (PStr ''team3''))) =
      ''{\"RID\":\"7\",\"Readings\":{\"BPM\":88,\"HRV\":12},\"SID\":\"5\",\"Team\":\"team3\",\"Time\":\"t0\"}''"
    by code_simp
  show ?thesis
    using h empty_value_is_absent [OF h, of "PStr ''5''" "PNum 88" "PNum 12" "PStr ''t0''" "PStr ''team3''"]
    by (simp add: r s putState_def)
qed

text \<open>
  C10. \<^verbatim>\<open>CreateAsset\<close>, \<^verbatim>\<open>UpdateAsset\<close> and \<^verbatim>\<open>DeleteAsset\<close> leave the value
  of every key other than their rid as it was, and so the entries of the other keys in
  the order of the scan; \<^verbatim>\<open>ReadAsset\<close>, \<^verbatim>\<open>AssetExists\<close> and \<^verbatim>\<open>GetAllAssets\<close>
  leave the whole world state as it was.
\<close>

theorem state_frame:
  "(k \<noteq> rid \<longrightarrow> getState (snd (CreateAsset ctx rid sid bpm hrv time team)) k = getState ctx k)
   \<and> (k \<noteq> rid \<longrightarrow> getState (snd (UpdateAsset ctx rid sid bpm hrv time team)) k = getState ctx k)
   \<and> (k \<noteq> rid \<longrightarrow> getState (snd (DeleteAsset ctx rid)) k = getState ctx k)
   \<and> filter (\<lambda>kv. fst kv \<noteq> rid) (snd (CreateAsset ctx rid sid bpm hrv time team)) =
       filter (\<lambda>kv. fst kv \<noteq> rid) ctx
   \<and> filter (\<lambda>kv. fst kv \<noteq> rid) (snd (UpdateAsset ctx rid sid bpm hrv time team)) =
       filter (\<lambda>kv. fst kv \<noteq> rid) ctx
   \<and> filter (\<lambda>kv. fst kv \<noteq> rid) (snd (DeleteAsset ctx rid)) =
       filter (\<lambda>kv. fst kv \<noteq> rid) ctx
   \<and> snd (ReadAsset ctx rid) = ctx
   \<and> snd (AssetExists ctx rid) = ctx
   \<and> snd (GetAllAssets JSON_parse ctx) = ctx"
  by (simp add: CreateAsset_unfold UpdateAsset_unfold DeleteAsset_unfold ReadAsset_unfold
      GetAllAssets_def AssetExists_cases getState_putState getState_deleteState
      filter_putState filter_deleteState)

theorem state_frame_witness:
  "''101'' \<noteq> ''7''
   \<and> getState (snd (CreateAsset [(''101'', ''a''), (''8'', ''b'')] ''7'' (PStr ''5'') (PNum 88) (PNum 12) (PStr ''t0'') (PStr ''team3''))) ''101'' = Some ''a''
   \<and> getState (snd (UpdateAsset [(''101'', ''a''), (''8'', ''b'')] ''8'' (PStr ''5'') (PNum 88) (PNum 12) (PStr ''t0'') (PStr ''team3''))) ''101'' = Some ''a''
   \<and> getState (snd (DeleteAsset [(''101'', ''a''), (''8'', ''b'')] ''8'')) ''101'' = Some ''a''
   \<and> getState (snd (DeleteAsset [(''101'', ''a''), (''8'', ''b'')] ''8'')) ''8'' = None
   \<and> snd (ReadAsset [(''101'', ''a''), (''8'', ''b'')] ''8'') = [(''101'', ''a''), (''8'', ''b'')]
   \<and> snd (AssetExists [(''101'', ''a''), (''8'', ''b'')] ''8'') = [(''101'', ''a''), (''8'', ''b'')]
   \<and> snd (GetAllAssets (\<lambda>t. None) [(''101'', ''a''), (''8'', ''b'')]) = [(''101'', ''a''), (''8'', ''b'')]
   \<and> filter (\<lambda>kv. fst kv \<noteq> ''8'') (snd (DeleteAsset [(''101'', ''a''), (''8'', ''b'')] ''8'')) = [(''101'', ''a'')]"
proof -
  have n: "''101'' \<noteq> ''7''" "''101'' \<noteq> ''8''" by simp_all
  have g: "getState [(''101'', ''a''), (''8'', ''b'')] ''101'' = Some ''a''"
    by (simp add: getState_def)
  have d: "getState (snd (DeleteAsset [(''101'', ''a''), (''8'', ''b'')] ''8'')) ''8'' = None"
    by (simp add: DeleteAsset_def AssetExists_def getState_def deleteState_def)
  show ?thesis
    using n g d
      state_frame [of "''101''" "''7''" "[(''101'', ''a''), (''8'', ''b'')]" "PStr ''5''" "PNum 88" "PNum 12" "PStr ''t0''" "PStr ''team3''" "\<lambda>t. None"]
      state_frame [of "''101''" "''8''" "[(''101'', ''a''), (''8'', ''b'')]" "PStr ''5''" "PNum 88" "PNum 12" "PStr ''t0''" "PStr ''team3''" "\<lambda>t. None"]
    by simp
qed

end
